theory Spec2Isabelle
  imports Complex_Main "HOL-Library.Sublist"
begin

section \<open>The search handler of \<^verbatim>\<open>src/index.js\<close>\<close>

text \<open>
  The repository has one route, \<^verbatim>\<open>GET /search\<close>. Its handler reads the query string,
  builds a list of filter predicates with positional placeholders, parses the sort
  parameter, picks one of three SQL templates and hands the text and the bound values to
  \<^verbatim>\<open>db.query\<close>. This theory embeds the handler up to that call: the result of the
  model is the pair of arguments of \<^verbatim>\<open>db.query(sql, values)\<close>.

  JavaScript strings are modelled as \<^typ>\<open>string\<close>; the query string is taken to map
  each key to at most one string (Fastify delivers an array for a repeated key, which is
  outside of this model). The embedding service and the data store are external.
\<close>

subsection \<open>Values and the destructured request\<close>

text \<open>
  A bound value is a string taken from the request or, for the defaults
  \<^verbatim>\<open>limit = 20\<close> and \<^verbatim>\<open>offset = 0\<close>, a number.
\<close>

datatype param = PStr string | PNum int

type_synonym raw_query = "string \<Rightarrow> string option"

text \<open>
  The variables bound by the destructuring assignment of lines 14 to 26. The record field
  for \<^verbatim>\<open>sort\<close> is named \<open>sort_param\<close>, since \<open>sort\<close> is a list function of HOL.
\<close>

record search_params =
  query :: string
  tags :: string
  subject :: string
  examboard :: string
  level :: string
  type :: string
  limit :: param
  offset :: param
  sort_param :: string
  fuzzy :: string
  semantic :: string

text \<open>A destructuring default applies when the key is absent, not when it is empty.\<close>

definition dflt :: "string \<Rightarrow> string option \<Rightarrow> string" where
  "dflt d v = (case v of None \<Rightarrow> d | Some s \<Rightarrow> s)"

definition dflt_num :: "int \<Rightarrow> string option \<Rightarrow> param" where
  "dflt_num d v = (case v of None \<Rightarrow> PNum d | Some s \<Rightarrow> PStr s)"

definition destructure :: "raw_query \<Rightarrow> search_params" where
  "destructure rq =
     \<lparr> query = dflt '''' (rq ''query''),
       tags = dflt '''' (rq ''tags''),
       subject = dflt '''' (rq ''subject''),
       examboard = dflt '''' (rq ''examboard''),
       level = dflt '''' (rq ''level''),
       type = dflt '''' (rq ''type''),
       limit = dflt_num 20 (rq ''limit''),
       offset = dflt_num 0 (rq ''offset''),
       sort_param = dflt ''averagerating:desc'' (rq ''sort''),
       fuzzy = dflt ''true'' (rq ''fuzzy''),
       semantic = dflt ''false'' (rq ''semantic'') \<rparr>"

subsection \<open>String helpers of the JavaScript runtime\<close>

text \<open>
  \<^verbatim>\<open>String.prototype.split\<close> with a one-character separator: every occurrence of the
  separator ends a segment, and the result always has at least one segment.
\<close>

fun split_acc :: "char \<Rightarrow> string \<Rightarrow> string \<Rightarrow> string list" where
  "split_acc sep cur [] = [cur]"
| "split_acc sep cur (c # cs) =
     (if c = sep then cur # split_acc sep [] cs else split_acc sep (cur @ [c]) cs)"

definition str_split :: "char \<Rightarrow> string \<Rightarrow> string list" where
  "str_split sep s = split_acc sep [] s"

text \<open>\<^verbatim>\<open>Array.prototype.join\<close>.\<close>

fun join :: "string \<Rightarrow> string list \<Rightarrow> string" where
  "join sep [] = []"
| "join sep [x] = x"
| "join sep (x # y # ys) = x @ sep @ join sep (y # ys)"

text \<open>
  A template literal renders the number \<^verbatim>\<open>paramIndex\<close> in decimal. (JavaScript
  switches to exponent notation from \<open>10\<^sup>2\<^sup>1\<close> on, a cursor that no request reaches.)
\<close>

definition digit_char :: "nat \<Rightarrow> char" where
  "digit_char d = char_of (48 + d)"

fun show_nat :: "nat \<Rightarrow> string" where
  "show_nat n = (if n < 10 then [digit_char n] else show_nat (n div 10) @ [digit_char (n mod 10)])"

subsection \<open>Filter building (lines 28 to 61)\<close>

definition parsedTags :: "search_params \<Rightarrow> string list" where
  "parsedTags sp = (if tags sp \<noteq> [] then str_split CHR '','' (tags sp) else [])"

text \<open>The three mutable locals \<^verbatim>\<open>filters\<close>, \<^verbatim>\<open>values\<close> and \<^verbatim>\<open>paramIndex\<close>.\<close>

record builder =
  filters :: "string list"
  vals :: "param list"
  paramIndex :: nat

definition init_builder :: builder where
  "init_builder = \<lparr> filters = [], vals = [], paramIndex = 1 \<rparr>"

text \<open>
  The callback of \<^verbatim>\<open>parsedTags.map\<close> increments \<^verbatim>\<open>paramIndex\<close> once per tag; the first
  argument is the cursor at the tag being mapped.
\<close>

fun tag_fragments :: "nat \<Rightarrow> string list \<Rightarrow> string list" where
  "tag_fragments i [] = []"
| \<open>tag_fragments i (tag # ts) =
     (''"tags" @> ARRAY[$'' @ show_nat i @ '']'') # tag_fragments (Suc i) ts\<close>

definition push_tags :: "string list \<Rightarrow> builder \<Rightarrow> builder" where
  "push_tags ts b =
     (if length ts > 0
      then b \<lparr> filters := filters b @ [join '' AND '' (tag_fragments (paramIndex b) ts)],
               vals := vals b @ map PStr ts,
               paramIndex := paramIndex b + length ts \<rparr>
      else b)"

text \<open>
  The four scalar filters are four copies of one statement, which differ in the column
  name and the variable tested.
\<close>

definition push_filter :: "string \<Rightarrow> string \<Rightarrow> builder \<Rightarrow> builder" where
  \<open>push_filter column v b =
     (if v \<noteq> []
      then b \<lparr> filters := filters b @ [''"'' @ column @ ''" = $'' @ show_nat (paramIndex b)],
               vals := vals b @ [PStr v],
               paramIndex := paramIndex b + 1 \<rparr>
      else b)\<close>

definition build_filters :: "search_params \<Rightarrow> builder" where
  "build_filters sp =
     push_filter ''type'' (type sp)
       (push_filter ''level'' (level sp)
         (push_filter ''examboard'' (examboard sp)
           (push_filter ''subject'' (subject sp)
             (push_tags (parsedTags sp) init_builder))))"

definition whereClause :: "builder \<Rightarrow> string" where
  "whereClause b =
     (if length (filters b) > 0 then ''WHERE '' @ join '' AND '' (filters b) else [])"

subsection \<open>Sorting (lines 64 to 69)\<close>

text \<open>
  The array destructuring takes the first two segments of the split and ignores the rest;
  a missing segment is \<^verbatim>\<open>undefined\<close>, here \<open>None\<close>.
\<close>

definition sortField :: "string \<Rightarrow> string option" where
  "sortField s = (case str_split CHR '':'' s of [] \<Rightarrow> None | f # _ \<Rightarrow> Some f)"

definition sortDir :: "string \<Rightarrow> string option" where
  "sortDir s = (case str_split CHR '':'' s of f # d # _ \<Rightarrow> Some d | _ \<Rightarrow> None)"

definition validSortDir :: "string \<Rightarrow> string" where
  "validSortDir s =
     (if sortDir s = Some ''asc'' \<or> sortDir s = Some ''desc'' then the (sortDir s) else ''desc'')"

text \<open>\<^verbatim>\<open>undefined\<close> and the empty string are the falsy values a sort field can take.\<close>

definition orderBy :: "string \<Rightarrow> string" where
  \<open>orderBy s =
     (case sortField s of
        None \<Rightarrow> ''"averagerating" DESC''
      | Some f \<Rightarrow>
          if f \<noteq> [] then ''"'' @ f @ ''" '' @ validSortDir s else ''"averagerating" DESC'')\<close>

subsection \<open>The three search strategies (lines 74 to 133)\<close>

text \<open>What is handed to \<^verbatim>\<open>db.query(sql, values)\<close>.\<close>

record db_call =
  sql :: string
  args :: "param list"

text \<open>
  The handler has one failure of its own before the store is called: the embedding
  request is rejected, which the \<^verbatim>\<open>catch\<close> block turns into a response with status 500.
\<close>

datatype error = EmbeddingError

datatype strategy = Semantic | FullText | FilterOnly

text \<open>The conditions of the \<^verbatim>\<open>if\<close> / \<^verbatim>\<open>else if\<close> / \<^verbatim>\<open>else\<close> chain, in its order.\<close>

definition search_strategy :: "search_params \<Rightarrow> strategy" where
  "search_strategy sp =
     (if semantic sp = ''true'' \<and> query sp \<noteq> [] then Semantic
      else if query sp \<noteq> [] then FullText
      else FilterOnly)"

text \<open>
  Semantic search. The embedding is a list of numbers that \<^verbatim>\<open>join\<close> renders one by one;
  the model takes each component as the string JavaScript renders it to, since floating
  point numbers are not modelled.
\<close>

definition semantic_search :: "string list \<Rightarrow> search_params \<Rightarrow> builder \<Rightarrow> db_call" where
  \<open>semantic_search embedding sp b =
     (let embeddingLiteral = ''['' @ join '','' embedding @ '']'' in
      \<lparr> sql =
          ''\<newline>'' @
          ''        SELECT id, title, description, "averagerating", subject, "examboard", level, type,\<newline>'' @
          ''               1 - (embedding <-> $'' @ show_nat (paramIndex b) @ '') AS semantic_score\<newline>'' @
          ''        FROM resources\<newline>'' @
          ''        '' @ whereClause b @ ''\<newline>'' @
          ''        ORDER BY semantic_score DESC, '' @ orderBy (sort_param sp) @ ''\<newline>'' @
          ''        LIMIT $'' @ show_nat (paramIndex b + 1) @
            '' OFFSET $'' @ show_nat (paramIndex b + 2) @ '';\<newline>'' @
          ''      '',
        args = vals b @ [PStr embeddingLiteral, limit sp, offset sp] \<rparr>)\<close>

text \<open>
  Full-text search, with the optional trigram condition. \<open>push_query\<close> is the pair of
  statements \<^verbatim>\<open>values.push(query); paramIndex++\<close>, which occurs twice.
\<close>

definition push_query :: "search_params \<Rightarrow> builder \<Rightarrow> builder" where
  "push_query sp b = b \<lparr> vals := vals b @ [PStr (query sp)], paramIndex := paramIndex b + 1 \<rparr>"

definition searchCondition :: "search_params \<Rightarrow> builder \<Rightarrow> string \<times> builder" where
  \<open>searchCondition sp b =
     (let cond = ''"search_tsv" @@ plainto_tsquery('english', $'' @ show_nat (paramIndex b) @ '')'';
          b1 = push_query sp b
      in if fuzzy sp = ''true''
         then (''('' @ cond @ '' OR "title" % $'' @ show_nat (paramIndex b1) @ '')'',
               push_query sp b1)
         else (cond, b1))\<close>

definition fulltext_select :: string where
  \<open>fulltext_select =
     ''\<newline>'' @
     ''        SELECT id, title, description, "averagerating", subject, "examboard", level, type,\<newline>'' @
     ''               ts_rank("search_tsv", plainto_tsquery('english', $1)) AS rank,\<newline>'' @
     ''               similarity("title", $1) AS fuzzy_score\<newline>'' @
     ''        FROM "resources"\<newline>'' @
     ''        ''\<close>

definition fulltext_search :: "search_params \<Rightarrow> builder \<Rightarrow> db_call" where
  \<open>fulltext_search sp b =
     (case searchCondition sp b of (cond, b2) \<Rightarrow>
      \<lparr> sql =
          fulltext_select @
          (if whereClause b \<noteq> [] then whereClause b @ '' AND '' else ''WHERE '') @
            '' '' @ cond @ ''\<newline>'' @
          ''        ORDER BY rank DESC, fuzzy_score DESC, '' @ orderBy (sort_param sp) @ ''\<newline>'' @
          ''        LIMIT $'' @ show_nat (paramIndex b2) @
            '' OFFSET $'' @ show_nat (paramIndex b2 + 1) @ '';\<newline>'' @
          ''      '',
        args = vals b2 @ [limit sp, offset sp] \<rparr>)\<close>

text \<open>No query: the filtered and sorted rows.\<close>

definition filter_search :: "search_params \<Rightarrow> builder \<Rightarrow> db_call" where
  \<open>filter_search sp b =
     \<lparr> sql =
         ''\<newline>'' @
         ''        SELECT id, title, description, "averagerating", subject, "examboard", level, type\<newline>'' @
         ''        FROM "resources"\<newline>'' @
         ''        '' @ whereClause b @ ''\<newline>'' @
         ''        ORDER BY '' @ orderBy (sort_param sp) @ ''\<newline>'' @
         ''        LIMIT $'' @ show_nat (paramIndex b) @
           '' OFFSET $'' @ show_nat (paramIndex b + 1) @ '';\<newline>'' @
         ''      '',
       args = vals b @ [limit sp, offset sp] \<rparr>\<close>

text \<open>
  The handler from the destructured request to the call of the store. The embedding
  service is the parameter \<open>create_embedding\<close>, with \<open>None\<close> for a rejected request; it is
  called in the semantic branch only.
\<close>

definition compile :: "(string \<Rightarrow> string list option) \<Rightarrow> search_params \<Rightarrow> error + db_call" where
  "compile create_embedding sp =
     (let b = build_filters sp in
      case search_strategy sp of
        Semantic \<Rightarrow>
          (case create_embedding (query sp) of
             None \<Rightarrow> Inl EmbeddingError
           | Some embedding \<Rightarrow> Inr (semantic_search embedding sp b))
      | FullText \<Rightarrow> Inr (fulltext_search sp b)
      | FilterOnly \<Rightarrow> Inr (filter_search sp b))"

definition search :: "(string \<Rightarrow> string list option) \<Rightarrow> raw_query \<Rightarrow> error + db_call" where
  "search create_embedding rq = compile create_embedding (destructure rq)"

subsection \<open>Reading a query text\<close>

text \<open>
  The properties below speak about the positional placeholders of a query text. A
  placeholder is a dollar sign followed by at least one decimal digit; \<open>placeholders\<close>
  lists the numbers of the placeholders of a text in the order of their occurrence.
\<close>

definition is_digit :: "char \<Rightarrow> bool" where
  "is_digit c = (48 \<le> (of_char c :: nat) \<and> (of_char c :: nat) \<le> 57)"

definition digit_val :: "char \<Rightarrow> nat" where
  "digit_val c = of_char c - 48"

definition nat_of_digits :: "string \<Rightarrow> nat" where
  "nat_of_digits ds = foldl (\<lambda>a c. 10 * a + digit_val c) 0 ds"

function placeholders :: "string \<Rightarrow> nat list" where
  "placeholders [] = []"
| "placeholders (c # cs) =
     (if c = CHR ''$'' \<and> takeWhile is_digit cs \<noteq> []
      then nat_of_digits (takeWhile is_digit cs) # placeholders (dropWhile is_digit cs)
      else placeholders cs)"
  by pat_completeness auto
termination
  by (relation "measure length") (auto simp: less_Suc_eq_le length_dropWhile_le)

text \<open>A text that starts with a digit would extend a placeholder written before it.\<close>

fun starts_digit :: "string \<Rightarrow> bool" where
  "starts_digit [] = False"
| "starts_digit (c # cs) = is_digit c"

text \<open>
  Modelled from the spec: the data store behind \<^verbatim>\<open>db.query\<close> (the pool wrapper
  \<^verbatim>\<open>./db/postgres.js\<close> is not among the sources) indexes its placeholders positionally,
  so the placeholder with number \<open>i\<close> stands for the \<open>i\<close>-th value of the call.
\<close>

definition bound :: "db_call \<Rightarrow> nat \<Rightarrow> param option" where
  "bound c i = (if 1 \<le> i \<and> i \<le> length (args c) then Some (args c ! (i - 1)) else None)"

text \<open>
  The invariant of filter building, for the proofs: the cursor is one more than the
  number of values, and the predicates written so far hold the placeholders from 1 up
  to the cursor, in this order.
\<close>

definition numbered :: "builder \<Rightarrow> bool" where
  "numbered b \<longleftrightarrow>
     paramIndex b = Suc (length (vals b)) \<and>
     (\<forall>ys. \<not> starts_digit ys \<longrightarrow>
        placeholders (join '' AND '' (filters b) @ ys) = [1..<paramIndex b] @ placeholders ys)"

subsection \<open>The words of the specification\<close>

text \<open>
  The flags of the response envelope (lines 141 and 142), which the specification calls
  \<^verbatim>\<open>fuzzyEnabled\<close> and \<^verbatim>\<open>semanticEnabled\<close>.
\<close>

definition fuzzyEnabled :: "search_params \<Rightarrow> bool" where
  "fuzzyEnabled sp = (fuzzy sp = ''true'')"

definition semanticEnabled :: "search_params \<Rightarrow> bool" where
  "semanticEnabled sp = (semantic sp = ''true'')"

text \<open>
  The specification describes the scalar predicates as one equality predicate for each
  non-empty filter, in a fixed order, each taking the next parameter slot.
\<close>

fun equality_predicates :: "nat \<Rightarrow> (string \<times> string) list \<Rightarrow> string list" where
  "equality_predicates i [] = []"
| \<open>equality_predicates i ((column, v) # rest) =
     (if v = [] then equality_predicates i rest
      else (''"'' @ column @ ''" = $'' @ show_nat i) # equality_predicates (Suc i) rest)\<close>

definition scalar_filters :: "search_params \<Rightarrow> (string \<times> string) list" where
  "scalar_filters sp =
     [(''subject'', subject sp), (''examboard'', examboard sp),
      (''level'', level sp), (''type'', type sp)]"

text \<open>
  The specification splits the sort parameter at the first colon: the field is the text
  before it and the direction is all of the text after it.
\<close>

definition split_first :: "char \<Rightarrow> string \<Rightarrow> string \<times> string option" where
  "split_first sep s =
     (takeWhile (\<lambda>c. c \<noteq> sep) s,
      case dropWhile (\<lambda>c. c \<noteq> sep) s of [] \<Rightarrow> None | _ # r \<Rightarrow> Some r)"

definition orderBy_spec :: "string \<Rightarrow> string" where
  \<open>orderBy_spec s =
     (case split_first CHR '':'' s of
        (f, d) \<Rightarrow>
          if f = [] then ''"averagerating" DESC''
          else ''"'' @ f @ ''" '' @ (if d = Some ''asc'' \<or> d = Some ''desc'' then the d else ''desc''))\<close>

text \<open>
  The sortable attributes that the specification wants a sort field checked against.
  The handler has no such list.
\<close>

definition sortable_attributes :: "string list" where
  "sortable_attributes =
     [''subject'', ''examboard'', ''level'', ''type'', ''averagerating'', ''title'']"

text \<open>
  Modelled from the spec: the data store has a trigram similarity function, which is the
  parameter \<open>similarity\<close> here. The column \<^verbatim>\<open>fuzzy_score\<close> of the full-text query is
  \<^verbatim>\<open>similarity("title", $1)\<close> (line 110): on a row with the given title the store applies
  its similarity to the title and to the value bound to the first placeholder.
\<close>

definition fuzzy_score :: "(string \<Rightarrow> param \<Rightarrow> real) \<Rightarrow> db_call \<Rightarrow> string \<Rightarrow> real option" where
  "fuzzy_score similarity c title = map_option (similarity title) (bound c 1)"

subsection \<open>Example requests\<close>

text \<open>
  The scenarios A to D of the specification, a semantic request with a filter, and three
  embedding services: one that always answers with the same short vector, one that
  rejects every request, and one that answers for a single query.
\<close>

definition scenario_A :: search_params where
  "scenario_A = destructure [''subject'' \<mapsto> ''Maths'', ''limit'' \<mapsto> ''10'', ''offset'' \<mapsto> ''0'']"

definition scenario_B :: search_params where
  "scenario_B =
     destructure [''query'' \<mapsto> ''algebra'', ''fuzzy'' \<mapsto> ''true'', ''semantic'' \<mapsto> ''false'']"

definition scenario_C :: search_params where
  "scenario_C = destructure [''query'' \<mapsto> ''algebra'', ''semantic'' \<mapsto> ''true'']"

definition scenario_D :: search_params where
  "scenario_D = destructure [''tags'' \<mapsto> ''gcse,revision'', ''subject'' \<mapsto> ''Physics'']"

definition semantic_filtered :: search_params where
  "semantic_filtered =
     destructure [''query'' \<mapsto> ''algebra'', ''semantic'' \<mapsto> ''true'', ''level'' \<mapsto> ''GCSE'']"

definition sample_embedding :: "string \<Rightarrow> string list option" where
  "sample_embedding q = Some [''0.1'', ''-0.25'']"

definition no_embedding :: "string \<Rightarrow> string list option" where
  "no_embedding q = None"

definition picky_embedding :: "string \<Rightarrow> string list option" where
  "picky_embedding q = (if q = ''algebra'' then Some [''0.1'', ''-0.25''] else None)"

text \<open>
  Two requests whose sort field closes the quoted identifier: one goes on with a
  statement, the other with a placeholder of its own.
\<close>

definition hostile_sort :: search_params where
  \<open>hostile_sort = destructure [''sort'' \<mapsto> ''id" ; DROP TABLE resources; --'']\<close>

definition placeholder_sort :: search_params where
  \<open>placeholder_sort = destructure [''sort'' \<mapsto> ''title" , $9 --'']\<close>

text \<open>Full-text requests: one without the trigram condition and one with two filters.\<close>

definition fulltext_plain :: search_params where
  "fulltext_plain = destructure [''query'' \<mapsto> ''algebra'', ''fuzzy'' \<mapsto> ''false'']"



text \<open>
  A similarity function for the examples: 1 for a title compared with itself, as a
  trigram similarity gives, and 0 for any other pair.
\<close>

definition exact_similarity :: "string \<Rightarrow> param \<Rightarrow> real" where
  "exact_similarity title v = (if v = PStr title then 1 else 0)"

section \<open>Properties of the helpers\<close>

subsection \<open>Decimal rendering and placeholders\<close>

declare show_nat.simps [simp del]
declare placeholders.simps(2) [simp del]

lemma digit_char_props: "d < 10 \<Longrightarrow> is_digit (digit_char d) \<and> digit_val (digit_char d) = d"
  by (simp add: is_digit_def digit_val_def digit_char_def)

lemma show_nat_digits: "\<forall>c \<in> set (show_nat n). is_digit c"
proof (induction n rule: show_nat.induct)
  case (1 n)
  show ?case
  proof (cases "n < 10")
    case True
    then show ?thesis by (simp add: show_nat.simps [of n] digit_char_props)
  next
    case False
    then have "show_nat n = show_nat (n div 10) @ [digit_char (n mod 10)]"
      by (simp add: show_nat.simps [of n])
    moreover have "is_digit (digit_char (n mod 10))" by (simp add: digit_char_props)
    ultimately show ?thesis using 1 False by auto
  qed
qed

lemma show_nat_nonempty: "show_nat n \<noteq> []"
  by (simp add: show_nat.simps [of n])

lemma nat_of_digits_snoc: "nat_of_digits (ds @ [c]) = 10 * nat_of_digits ds + digit_val c"
  by (simp add: nat_of_digits_def)

lemma nat_of_digits_show_nat: "nat_of_digits (show_nat n) = n"
proof (induction n rule: show_nat.induct)
  case (1 n)
  show ?case
  proof (cases "n < 10")
    case True
    then show ?thesis by (simp add: show_nat.simps [of n] nat_of_digits_def digit_char_props)
  next
    case False
    then have "show_nat n = show_nat (n div 10) @ [digit_char (n mod 10)]"
      by (simp add: show_nat.simps [of n])
    then have "nat_of_digits (show_nat n) = 10 * nat_of_digits (show_nat (n div 10)) + n mod 10"
      by (simp add: nat_of_digits_snoc digit_char_props)
    with 1 False show ?thesis by simp
  qed
qed


lemma placeholders_skip: "c \<noteq> CHR ''$'' \<Longrightarrow> placeholders (c # cs) = placeholders cs"
  by (simp add: placeholders.simps(2))

lemma takeWhile_show_nat: "\<not> starts_digit ys \<Longrightarrow> takeWhile is_digit (show_nat n @ ys) = show_nat n"
  by (cases ys) (simp_all add: show_nat_digits takeWhile_append2)

lemma dropWhile_show_nat: "\<not> starts_digit ys \<Longrightarrow> dropWhile is_digit (show_nat n @ ys) = ys"
  by (cases ys) (simp_all add: show_nat_digits dropWhile_append2)

lemma placeholders_param:
  "\<not> starts_digit ys \<Longrightarrow> placeholders (CHR ''$'' # show_nat n @ ys) = n # placeholders ys"
  by (simp add: placeholders.simps(2) takeWhile_show_nat dropWhile_show_nat
      show_nat_nonempty nat_of_digits_show_nat)

lemma placeholders_param_end: "placeholders (CHR ''$'' # show_nat n) = [n]"
  using placeholders_param [of "[]" n] by simp

lemma placeholders_no_dollar:
  "CHR ''$'' \<notin> set xs \<Longrightarrow> placeholders (xs @ ys) = placeholders ys"
  by (induction xs) (auto simp: placeholders_skip)

subsection \<open>Filter building keeps the placeholders numbered\<close>

lemma join_snoc: "join sep (xs @ [f]) = (if xs = [] then f else join sep xs @ sep @ f)"
  by (induction sep xs rule: join.induct) auto

lemma not_digit_simps [simp]:
  "\<not> is_digit CHR '' ''" "\<not> is_digit CHR '']''" "\<not> is_digit CHR '')''"
  "\<not> is_digit CHR '';''" "\<not> is_digit CHR ''\<newline>''" "\<not> is_digit CHR 0x22"
  by (simp_all add: is_digit_def)

lemma tag_fragment_placeholders:
  \<open>\<not> starts_digit ys \<Longrightarrow>
   placeholders ((''"tags" @> ARRAY[$'' @ show_nat i @ '']'') @ ys) = i # placeholders ys\<close>
  by (simp add: placeholders_skip placeholders_param)

lemma tag_fragments_placeholders:
  "ts \<noteq> [] \<Longrightarrow> \<not> starts_digit ys \<Longrightarrow>
   placeholders (join '' AND '' (tag_fragments i ts) @ ys) = [i..<i + length ts] @ placeholders ys"
proof (induction ts arbitrary: i)
  case Nil
  then show ?case by simp
next
  case (Cons t ts)
  let ?f = \<open>''"tags" @> ARRAY[$'' @ show_nat i @ '']''\<close>
  show ?case
  proof (cases ts)
    case Nil
    have "placeholders (?f @ ys) = i # placeholders ys"
      using Cons.prems(2) by (rule tag_fragment_placeholders)
    with Nil show ?thesis by simp
  next
    case (Cons t' ts')
    let ?rest = "join '' AND '' (tag_fragments (Suc i) ts)"
    have split: "join '' AND '' (tag_fragments i (t # ts)) @ ys = ?f @ ('' AND '' @ ?rest @ ys)"
      using local.Cons by simp
    have "placeholders (?f @ ('' AND '' @ ?rest @ ys)) = i # placeholders ('' AND '' @ ?rest @ ys)"
      by (rule tag_fragment_placeholders) simp
    also have "placeholders ('' AND '' @ ?rest @ ys) = placeholders (?rest @ ys)"
      by (simp add: placeholders_skip)
    also have "\<dots> = [Suc i..<Suc i + length ts] @ placeholders ys"
      using Cons.IH [of "Suc i"] Cons.prems(2) local.Cons by blast
    finally have "placeholders (?f @ ('' AND '' @ ?rest @ ys))
                  = i # [Suc i..<Suc i + length ts] @ placeholders ys" .
    moreover have "i # [Suc i..<Suc i + length ts] = [i..<i + length (t # ts)]"
      by (simp del: upt_Suc add: upt_conv_Cons)
    ultimately show ?thesis
      unfolding split by simp
  qed
qed

lemma numbered_push_tags: "numbered (push_tags ts init_builder)"
  by (auto simp: numbered_def push_tags_def init_builder_def tag_fragments_placeholders)

lemma numbered_push_filter:
  assumes "numbered b" and "CHR ''$'' \<notin> set column"
  shows "numbered (push_filter column v b)"
proof (cases "v = []")
  case True
  with assms show ?thesis by (simp add: push_filter_def)
next
  case False
  let ?f = "CHR 0x22 # column @ CHR 0x22 # '' = $'' @ show_nat (paramIndex b)"
  have idx: "paramIndex b = Suc (length (vals b))"
    using assms(1) by (simp add: numbered_def)
  have frag: "placeholders (?f @ ys) = paramIndex b # placeholders ys" if "\<not> starts_digit ys" for ys
    using that assms(2) by (simp add: placeholders_skip placeholders_no_dollar placeholders_param)
  have "placeholders (join '' AND '' (filters b @ [?f]) @ ys)
        = [1..<Suc (paramIndex b)] @ placeholders ys" if nd: "\<not> starts_digit ys" for ys
  proof (cases "filters b = []")
    case True
    have "[1..<paramIndex b] = []"
      using assms(1) True unfolding numbered_def by (auto dest!: spec [of _ "[]"])
    then have "paramIndex b \<le> 1"
      by auto
    with idx have "paramIndex b = 1"
      by simp
    then have "[1..<Suc (paramIndex b)] = [paramIndex b]"
      by simp
    with True frag [OF nd] show ?thesis by simp
  next
    case False
    have "placeholders (join '' AND '' (filters b) @ ('' AND '' @ ?f @ ys))
          = [1..<paramIndex b] @ placeholders ('' AND '' @ ?f @ ys)"
      using assms(1) by (simp add: numbered_def)
    also have "placeholders ('' AND '' @ ?f @ ys) = placeholders (?f @ ys)"
      by (simp add: placeholders_skip)
    also have "\<dots> = paramIndex b # placeholders ys"
      by (rule frag [OF nd])
    finally show ?thesis
      using False idx by (simp add: join_snoc)
  qed
  then show ?thesis
    using False idx by (simp add: numbered_def push_filter_def)
qed

lemma numbered_build_filters: "numbered (build_filters sp)"
  by (simp add: build_filters_def numbered_push_filter numbered_push_tags)

lemma whereClause_placeholders:
  assumes "numbered b" and "\<not> starts_digit ys"
  shows "placeholders (whereClause b @ ys) = [1..<paramIndex b] @ placeholders ys"
proof (cases "filters b = []")
  case True
  have "[1..<paramIndex b] = []"
    using assms(1) True unfolding numbered_def by (auto dest!: spec [of _ "[]"])
  with True show ?thesis by (simp add: whereClause_def)
next
  case False
  with assms show ?thesis
    by (simp add: whereClause_def numbered_def placeholders_skip)
qed

subsection \<open>Parsing the sort parameter\<close>

lemma split_acc_unfold:
  "split_acc sep cur s =
     (cur @ takeWhile (\<lambda>c. c \<noteq> sep) s) #
     (case dropWhile (\<lambda>c. c \<noteq> sep) s of [] \<Rightarrow> [] | _ # r \<Rightarrow> split_acc sep [] r)"
  by (induction s arbitrary: cur) auto

lemma str_split_unfold:
  "str_split sep s =
     takeWhile (\<lambda>c. c \<noteq> sep) s #
     (case dropWhile (\<lambda>c. c \<noteq> sep) s of [] \<Rightarrow> [] | _ # r \<Rightarrow> str_split sep r)"
  unfolding str_split_def using split_acc_unfold [of sep "[]" s] by (simp only: append_Nil)

lemma sortField_eq: "sortField s = Some (takeWhile (\<lambda>c. c \<noteq> CHR '':'') s)"
  by (subst sortField_def, subst str_split_unfold) simp

lemma sortDir_eq:
  "sortDir s =
     (case dropWhile (\<lambda>c. c \<noteq> CHR '':'') s of
        [] \<Rightarrow> None
      | _ # r \<Rightarrow> Some (takeWhile (\<lambda>c. c \<noteq> CHR '':'') r))"
proof (cases "dropWhile (\<lambda>c. c \<noteq> CHR '':'') s")
  case Nil
  have "str_split CHR '':'' s = [takeWhile (\<lambda>c. c \<noteq> CHR '':'') s]"
    by (subst str_split_unfold) (simp only: Nil list.case)
  then show ?thesis
    by (simp only: sortDir_def Nil list.case)
next
  case (Cons c r)
  have "str_split CHR '':'' s = takeWhile (\<lambda>c. c \<noteq> CHR '':'') s # str_split CHR '':'' r"
    by (subst str_split_unfold) (simp only: Cons list.case)
  moreover obtain rest where "str_split CHR '':'' r = takeWhile (\<lambda>c. c \<noteq> CHR '':'') r # rest"
    using str_split_unfold [of "CHR '':''" r] by blast
  ultimately show ?thesis
    by (simp only: sortDir_def Cons list.case)
qed

lemma validSortDir_cases: "validSortDir s = ''asc'' \<or> validSortDir s = ''desc''"
  by (auto simp: validSortDir_def)

lemma orderBy_no_dollar:
  assumes "CHR ''$'' \<notin> set (sort_param sp)"
  shows "CHR ''$'' \<notin> set (orderBy (sort_param sp))"
proof -
  have "CHR ''$'' \<notin> set (takeWhile (\<lambda>c. c \<noteq> CHR '':'') (sort_param sp))"
    using assms by (auto dest: set_takeWhileD)
  moreover have "CHR ''$'' \<notin> set (validSortDir (sort_param sp))"
    using validSortDir_cases [of "sort_param sp"] by auto
  ultimately show ?thesis
    by (simp add: orderBy_def sortField_eq)
qed

subsection \<open>What filter building returns\<close>

lemma paramIndex_build_filters:
  "paramIndex (build_filters sp) = Suc (length (vals (build_filters sp)))"
  using numbered_build_filters [of sp] by (simp add: numbered_def)

lemma vals_push_filter: "vals (push_filter column v b) = vals b @ map PStr (filter (\<lambda>v. v \<noteq> []) [v])"
  by (simp add: push_filter_def)

lemma vals_build_filters:
  "vals (build_filters sp) =
     map PStr (parsedTags sp @ filter (\<lambda>v. v \<noteq> []) (map snd (scalar_filters sp)))"
  unfolding build_filters_def vals_push_filter scalar_filters_def
  by (simp add: push_tags_def init_builder_def)

lemma filters_push_filter:
  "filters (push_filter column v b) = filters b @ equality_predicates (paramIndex b) [(column, v)]"
  by (simp add: push_filter_def)

lemma paramIndex_push_filter:
  "paramIndex (push_filter column v b) = (if v = [] then paramIndex b else Suc (paramIndex b))"
  by (simp add: push_filter_def)

lemma filters_build_filters:
  "filters (build_filters sp) =
     (if parsedTags sp = [] then [] else [join '' AND '' (tag_fragments 1 (parsedTags sp))]) @
     equality_predicates (Suc (length (parsedTags sp))) (scalar_filters sp)"
  by (simp add: build_filters_def scalar_filters_def filters_push_filter paramIndex_push_filter
      push_tags_def init_builder_def)

subsection \<open>The placeholders of the three query texts\<close>

lemma digit_char_simps:
  "digit_char 0 = CHR ''0''" "digit_char (Suc 0) = CHR ''1''" "digit_char 1 = CHR ''1''"
  "digit_char 2 = CHR ''2''" "digit_char 3 = CHR ''3''" "digit_char 4 = CHR ''4''"
  "digit_char 5 = CHR ''5''" "digit_char 6 = CHR ''6''" "digit_char 7 = CHR ''7''"
  "digit_char 8 = CHR ''8''" "digit_char 9 = CHR ''9''"
  by code_simp+

lemma show_nat_1: "show_nat (Suc 0) = ''1''"
  by (simp add: show_nat.simps [of "Suc 0"] digit_char_simps)

lemma placeholders_dollar_1:
  "\<not> starts_digit ys \<Longrightarrow> placeholders (CHR ''$'' # CHR ''1'' # ys) = 1 # placeholders ys"
  using placeholders_param [of ys 1] by (simp add: show_nat_1)

lemma fulltext_select_placeholders:
  "placeholders (fulltext_select @ ys) = [1, 1] @ placeholders ys"
  by (simp add: fulltext_select_def placeholders_skip placeholders_dollar_1)

lemma filter_search_placeholders:
  assumes "numbered b" and "CHR ''$'' \<notin> set (orderBy (sort_param sp))"
  shows "placeholders (sql (filter_search sp b))
         = [1..<paramIndex b] @ [paramIndex b, paramIndex b + 1]"
  using assms
  by (simp add: filter_search_def placeholders_skip placeholders_param placeholders_no_dollar
      whereClause_placeholders)

lemma semantic_search_placeholders:
  assumes "numbered b" and "CHR ''$'' \<notin> set (orderBy (sort_param sp))"
  shows "placeholders (sql (semantic_search e sp b))
         = paramIndex b # [1..<paramIndex b] @ [paramIndex b + 1, paramIndex b + 2]"
  using assms
  by (simp add: semantic_search_def Let_def placeholders_skip placeholders_param
      placeholders_no_dollar whereClause_placeholders)

lemma fulltext_where_placeholders:
  assumes "numbered b" and "\<not> starts_digit ys"
  shows "placeholders ((if whereClause b \<noteq> [] then whereClause b @ '' AND '' else ''WHERE '') @ ys)
         = [1..<paramIndex b] @ placeholders ys"
proof (cases "whereClause b = []")
  case True
  have "placeholders (whereClause b @ []) = [1..<paramIndex b] @ placeholders []"
    using assms(1) by (rule whereClause_placeholders) simp
  with True have "[1..<paramIndex b] = []" by simp
  with True show ?thesis by (simp add: placeholders_skip)
next
  case False
  have "placeholders (whereClause b @ ('' AND '' @ ys)) = [1..<paramIndex b] @ placeholders ('' AND '' @ ys)"
    using assms(1) by (rule whereClause_placeholders) simp
  with False show ?thesis by (simp add: placeholders_skip)
qed

lemma paramIndex_searchCondition:
  "paramIndex (snd (searchCondition sp b)) = paramIndex b + (if fuzzy sp = ''true'' then 2 else 1)"
  by (simp add: searchCondition_def push_query_def Let_def)

lemma vals_searchCondition:
  "vals (snd (searchCondition sp b)) =
     vals b @ (if fuzzy sp = ''true'' then [PStr (query sp), PStr (query sp)] else [PStr (query sp)])"
  by (simp add: searchCondition_def push_query_def Let_def)

lemma searchCondition_placeholders:
  "\<not> starts_digit ys \<Longrightarrow>
   placeholders (fst (searchCondition sp b) @ ys) =
     (if fuzzy sp = ''true'' then [paramIndex b, paramIndex b + 1] else [paramIndex b]) @ placeholders ys"
  by (simp add: searchCondition_def push_query_def Let_def placeholders_skip placeholders_param)

lemma fulltext_search_sql:
  \<open>sql (fulltext_search sp b) =
     fulltext_select @
     (if whereClause b \<noteq> [] then whereClause b @ '' AND '' else ''WHERE '') @
     '' '' @ fst (searchCondition sp b) @ ''\<newline>'' @
     ''        ORDER BY rank DESC, fuzzy_score DESC, '' @ orderBy (sort_param sp) @ ''\<newline>'' @
     ''        LIMIT $'' @ show_nat (paramIndex (snd (searchCondition sp b))) @
     '' OFFSET $'' @ show_nat (paramIndex (snd (searchCondition sp b)) + 1) @ '';\<newline>'' @
     ''      ''\<close>
  by (simp add: fulltext_search_def split: prod.split)

lemma fulltext_search_args:
  "args (fulltext_search sp b) = vals (snd (searchCondition sp b)) @ [limit sp, offset sp]"
  by (simp add: fulltext_search_def split: prod.split)

lemma fulltext_search_placeholders:
  assumes "numbered b" and "CHR ''$'' \<notin> set (orderBy (sort_param sp))"
  shows "placeholders (drop (length fulltext_select) (sql (fulltext_search sp b)))
         = [1..<paramIndex b] @
           (if fuzzy sp = ''true''
            then [paramIndex b, paramIndex b + 1, paramIndex b + 2, paramIndex b + 3]
            else [paramIndex b, paramIndex b + 1, paramIndex b + 2])"
  using assms
  by (simp add: fulltext_search_sql fulltext_where_placeholders searchCondition_placeholders
      paramIndex_searchCondition placeholders_skip placeholders_param placeholders_no_dollar
      del: append_assoc)

subsection \<open>Predicates and their placeholders\<close>

lemma equality_predicates_placeholders:
  "\<forall>(column, v) \<in> set xs. CHR ''$'' \<notin> set column \<Longrightarrow>
   map placeholders (equality_predicates i xs) =
     map (\<lambda>j. [j]) [i..<i + length (filter (\<lambda>v. v \<noteq> []) (map snd xs))]"
proof (induction i xs rule: equality_predicates.induct)
  case (1 i)
  then show ?case by simp
next
  case (2 i column v rest)
  have frag: \<open>placeholders (''"'' @ column @ ''" = $'' @ show_nat i) = [i]\<close>
    using 2(3) by (simp add: placeholders_skip placeholders_no_dollar placeholders_param_end)
  show ?case
  proof (cases "v = []")
    case True
    with 2 show ?thesis by simp
  next
    case False
    with 2 frag show ?thesis by (simp del: upt_Suc add: upt_conv_Cons)
  qed
qed

lemma tag_fragments_join_placeholders:
  "ts \<noteq> [] \<Longrightarrow> placeholders (join '' AND '' (tag_fragments i ts)) = [i..<i + length ts]"
  using tag_fragments_placeholders [of ts "[]" i] by simp

lemma tag_fragments_map:
  \<open>tag_fragments i ts = map (\<lambda>j. ''"tags" @> ARRAY[$'' @ show_nat j @ '']'') [i..<i + length ts]\<close>
  by (induction ts arbitrary: i) (simp_all del: upt_Suc add: upt_conv_Cons)

lemma join_join: "xs \<noteq> [] \<Longrightarrow> join sep (join sep xs # ys) = join sep (xs @ ys)"
proof (induction sep xs rule: join.induct)
  case (1 sep)
  then show ?case by simp
next
  case (2 sep x)
  then show ?case by (cases ys) simp_all
next
  case (3 sep x y zs)
  then show ?case by (cases ys) simp_all
qed

lemma scenario_D_filters:
  \<open>build_filters scenario_D =
     \<lparr> filters = [''"tags" @> ARRAY[$1] AND "tags" @> ARRAY[$2]'', ''"subject" = $3''],
       vals = [PStr ''gcse'', PStr ''revision'', PStr ''Physics''],
       paramIndex = 4 \<rparr>\<close>
  by code_simp

subsection \<open>Numbering in terms of the length of the parameter list\<close>

lemma filter_search_numbering:
  assumes "CHR ''$'' \<notin> set (sort_param sp)"
  defines "c \<equiv> filter_search sp (build_filters sp)"
  shows "placeholders (sql c) = [1..<Suc (length (args c))]"
    and "args c = vals (build_filters sp) @ [limit sp, offset sp]"
proof -
  let ?b = "build_filters sp"
  show a: "args c = vals ?b @ [limit sp, offset sp]"
    by (simp add: c_def filter_search_def)
  have "placeholders (sql c) = [1..<paramIndex ?b] @ [paramIndex ?b, paramIndex ?b + 1]"
    unfolding c_def
    by (rule filter_search_placeholders [OF numbered_build_filters orderBy_no_dollar [OF assms(1)]])
  then show "placeholders (sql c) = [1..<Suc (length (args c))]"
    by (simp add: a paramIndex_build_filters)
qed

lemma semantic_search_numbering:
  fixes e :: "string list"
  assumes "CHR ''$'' \<notin> set (sort_param sp)"
  defines "c \<equiv> semantic_search e sp (build_filters sp)"
  shows "placeholders (sql c)
         = (length (args c) - 2) # [1..<length (args c) - 2] @ [length (args c) - 1, length (args c)]"
    and "args c = vals (build_filters sp) @ [PStr (''['' @ join '','' e @ '']''), limit sp, offset sp]"
proof -
  let ?b = "build_filters sp"
  show a: "args c = vals ?b @ [PStr (''['' @ join '','' e @ '']''), limit sp, offset sp]"
    by (simp add: c_def semantic_search_def)
  have "placeholders (sql c)
        = paramIndex ?b # [1..<paramIndex ?b] @ [paramIndex ?b + 1, paramIndex ?b + 2]"
    unfolding c_def
    by (rule semantic_search_placeholders [OF numbered_build_filters orderBy_no_dollar [OF assms(1)]])
  then show "placeholders (sql c)
         = (length (args c) - 2) # [1..<length (args c) - 2] @ [length (args c) - 1, length (args c)]"
    by (simp add: a paramIndex_build_filters)
qed

lemma fulltext_search_numbering:
  assumes "CHR ''$'' \<notin> set (sort_param sp)"
  defines "c \<equiv> fulltext_search sp (build_filters sp)"
  shows "placeholders (drop (length fulltext_select) (sql c)) = [1..<Suc (length (args c))]"
    and "placeholders (sql c) = [1, 1] @ [1..<Suc (length (args c))]"
    and "args c = vals (build_filters sp) @
           (if fuzzy sp = ''true'' then [PStr (query sp), PStr (query sp)] else [PStr (query sp)]) @
           [limit sp, offset sp]"
proof -
  let ?b = "build_filters sp"
  show a: "args c = vals ?b @
           (if fuzzy sp = ''true'' then [PStr (query sp), PStr (query sp)] else [PStr (query sp)]) @
           [limit sp, offset sp]"
    by (simp add: c_def fulltext_search_args vals_searchCondition)
  have "placeholders (drop (length fulltext_select) (sql c))
         = [1..<paramIndex ?b] @
           (if fuzzy sp = ''true''
            then [paramIndex ?b, paramIndex ?b + 1, paramIndex ?b + 2, paramIndex ?b + 3]
            else [paramIndex ?b, paramIndex ?b + 1, paramIndex ?b + 2])"
    unfolding c_def
    by (rule fulltext_search_placeholders [OF numbered_build_filters orderBy_no_dollar [OF assms(1)]])
  then show r: "placeholders (drop (length fulltext_select) (sql c)) = [1..<Suc (length (args c))]"
    by (simp add: a paramIndex_build_filters)
  have "sql c = fulltext_select @ drop (length fulltext_select) (sql c)"
    by (simp add: c_def fulltext_search_sql)
  then have "placeholders (sql c) = [1, 1] @ placeholders (drop (length fulltext_select) (sql c))"
    using fulltext_select_placeholders by metis
  with r show "placeholders (sql c) = [1, 1] @ [1..<Suc (length (args c))]"
    by simp
qed

subsection \<open>The handler as a whole\<close>

lemma Max_upto: "1 \<le> n \<Longrightarrow> Max {1..n::nat} = n"
  by (rule Max_eqI) auto

lemma compile_cases:
  assumes "compile ce sp = Inr c"
  obtains (semantic) e where "search_strategy sp = Semantic" "ce (query sp) = Some e"
      "c = semantic_search e sp (build_filters sp)"
    | (fulltext) "search_strategy sp = FullText" "c = fulltext_search sp (build_filters sp)"
    | (filter_only) "search_strategy sp = FilterOnly" "c = filter_search sp (build_filters sp)"
  using assms by (auto simp: compile_def Let_def split: strategy.splits option.splits)


subsection \<open>The sort fragment is part of every query text\<close>

lemma sublist_here: "sublist xs (xs @ ss)"
  by simp

lemma sublist_later: "sublist xs zs \<Longrightarrow> sublist xs (ys @ zs)"
  by (auto simp: sublist_def) (metis append.assoc)

lemma orderBy_in_filter_search: "sublist (orderBy (sort_param sp)) (sql (filter_search sp b))"
  unfolding filter_search_def db_call.select_convs
  by (intro sublist_here sublist_later)

lemma orderBy_in_semantic_search: "sublist (orderBy (sort_param sp)) (sql (semantic_search e sp b))"
  unfolding semantic_search_def Let_def db_call.select_convs
  by (intro sublist_here sublist_later)

lemma orderBy_in_fulltext_search: "sublist (orderBy (sort_param sp)) (sql (fulltext_search sp b))"
  unfolding fulltext_search_sql
  by (intro sublist_here sublist_later)

lemma orderBy_in_compiled:
  assumes "compile ce sp = Inr c"
  shows "sublist (orderBy (sort_param sp)) (sql c)"
  using assms
  by (cases rule: compile_cases)
    (simp_all add: orderBy_in_semantic_search orderBy_in_fulltext_search orderBy_in_filter_search)

lemma search_strategy_sort_param [simp]:
  "search_strategy (sp \<lparr> sort_param := s \<rparr>) = search_strategy sp"
  by (simp add: search_strategy_def)

lemma compile_succeeds_iff:
  "(\<exists>c. compile ce sp = Inr c) \<longleftrightarrow> \<not> (search_strategy sp = Semantic \<and> ce (query sp) = None)"
  by (cases "search_strategy sp"; cases "ce (query sp)") (simp_all add: compile_def)

lemma isl_compile:
  "isl (compile ce sp) \<longleftrightarrow> search_strategy sp = Semantic \<and> ce (query sp) = None"
  by (cases "search_strategy sp"; cases "ce (query sp)") (simp_all add: compile_def)

subsection \<open>The first parameter of a full-text query\<close>






lemma hd_map_append: "xs \<noteq> [] \<Longrightarrow> hd (map f xs @ ys) = f (hd xs)"
  by (cases xs) simp_all

lemma fulltext_first_parameter:
  "bound (fulltext_search sp (build_filters sp)) 1 =
     Some (PStr (hd (parsedTags sp @ filter (\<lambda>v. v \<noteq> []) (map snd (scalar_filters sp)) @ [query sp])))"
proof -
  let ?fs = "parsedTags sp @ filter (\<lambda>v. v \<noteq> []) (map snd (scalar_filters sp))"
  let ?q = "if fuzzy sp = ''true'' then [query sp, query sp] else [query sp]"
  have a: "args (fulltext_search sp (build_filters sp)) =
      map PStr (?fs @ ?q) @ [limit sp, offset sp]"
    by (simp add: fulltext_search_args vals_searchCondition vals_build_filters)
  have ne: "?fs @ ?q \<noteq> []" by simp
  have "bound (fulltext_search sp (build_filters sp)) 1 = Some (hd (map PStr (?fs @ ?q) @ [limit sp, offset sp]))"
    unfolding bound_def a using ne by (simp add: hd_conv_nth)
  also have "hd (map PStr (?fs @ ?q) @ [limit sp, offset sp]) = PStr (hd (?fs @ ?q))"
    using ne by (rule hd_map_append)
  also have "hd (?fs @ ?q) = hd (?fs @ [query sp])"
    by (cases ?fs) simp_all
  finally show ?thesis by simp
qed



lemma fulltext_select_columns:
  \<open>placeholders fulltext_select = [1, 1]\<close>
  \<open>sublist ''ts_rank("search_tsv", plainto_tsquery('english', $1)) AS rank'' fulltext_select\<close>
  \<open>sublist ''similarity("title", $1) AS fuzzy_score'' fulltext_select\<close>
  by code_simp+

lemma fuzzy_score_fulltext:
  "fuzzy_score similarity (fulltext_search sp (build_filters sp)) title =
     Some (similarity title
       (PStr (hd (parsedTags sp @ filter (\<lambda>v. v \<noteq> []) (map snd (scalar_filters sp)) @ [query sp]))))"
  unfolding fuzzy_score_def fulltext_first_parameter by simp

lemma build_filters_fuzzy [simp]: "build_filters (sp \<lparr> fuzzy := f \<rparr>) = build_filters sp"
  by (simp add: build_filters_def parsedTags_def)

lemma sublist_fulltext_select:
  "sublist xs fulltext_select \<Longrightarrow> sublist xs (sql (fulltext_search sp b))"
  unfolding fulltext_search_sql by (simp only: sublist_append simp_thms)

subsection \<open>The sort parameter split at its first colon\<close>

lemma validSortDir_eq: "validSortDir s = (if sortDir s = Some ''asc'' then ''asc'' else ''desc'')"
  by (auto simp: validSortDir_def)

lemma orderBy_eq:
  \<open>orderBy s =
     (if takeWhile (\<lambda>c. c \<noteq> CHR '':'') s = [] then ''"averagerating" DESC''
      else ''"'' @ takeWhile (\<lambda>c. c \<noteq> CHR '':'') s @ ''" '' @ validSortDir s)\<close>
  by (simp add: orderBy_def sortField_eq)

lemma single_colon_rest:
  assumes "count_list s CHR '':'' \<le> 1" and "dropWhile (\<lambda>c. c \<noteq> CHR '':'') s = x # r"
  shows "takeWhile (\<lambda>c. c \<noteq> CHR '':'') r = r"
proof -
  have x: "x = CHR '':''"
    using hd_dropWhile [of "\<lambda>c. c \<noteq> CHR '':''" s] assms(2) by simp
  have "s = takeWhile (\<lambda>c. c \<noteq> CHR '':'') s @ x # r"
    using takeWhile_dropWhile_id [of "\<lambda>c. c \<noteq> CHR '':''" s] assms(2) by simp
  then have "count_list s CHR '':'' =
      count_list (takeWhile (\<lambda>c. c \<noteq> CHR '':'') s) CHR '':'' + count_list (x # r) CHR '':''"
    by (metis count_list_append)
  with assms(1) x have "count_list r CHR '':'' = 0"
    by simp
  then have "CHR '':'' \<notin> set r"
    by (simp add: count_list_0_iff)
  then show ?thesis
    by (auto simp: takeWhile_eq_all_conv)
qed

lemma orderBy_spec_agrees:
  assumes "count_list s CHR '':'' \<le> 1"
  shows "orderBy s = orderBy_spec s"
proof (cases "dropWhile (\<lambda>c. c \<noteq> CHR '':'') s")
  case Nil
  then have "sortDir s = None"
    by (simp only: sortDir_eq list.case)
  with Nil show ?thesis
    by (simp add: orderBy_eq orderBy_spec_def split_first_def validSortDir_def del: dropWhile_eq_Nil_conv)
next
  case (Cons x r)
  then have "sortDir s = Some (takeWhile (\<lambda>c. c \<noteq> CHR '':'') r)"
    by (simp only: sortDir_eq list.case)
  then have "sortDir s = Some r"
    using single_colon_rest [OF assms Cons] by simp
  with Cons show ?thesis
    by (auto simp: orderBy_eq orderBy_spec_def split_first_def validSortDir_def)
qed

subsection \<open>Scenario A, from the query string to the call of the store\<close>

lemma search_scenario_A:
  \<open>search no_embedding [''subject'' \<mapsto> ''Maths'', ''limit'' \<mapsto> ''10'', ''offset'' \<mapsto> ''0''] =
     Inr \<lparr> sql =
             ''\<newline>'' @
             ''        SELECT id, title, description, "averagerating", subject, "examboard", level, type\<newline>'' @
             ''        FROM "resources"\<newline>'' @
             ''        WHERE "subject" = $1\<newline>'' @
             ''        ORDER BY "averagerating" desc\<newline>'' @
             ''        LIMIT $2 OFFSET $3;\<newline>'' @
             ''      '',
           args = [PStr ''Maths'', PStr ''10'', PStr ''0''] \<rparr>\<close>
  by code_simp

section \<open>The claims\<close>

text \<open>
  Claim C1, as amended. For a request whose sort parameter holds no dollar sign, the
  placeholders of the compiled text are exactly the numbers from 1 to the length of the
  parameter list, so the highest placeholder equals that length. In the semantic and
  the filter-only branch every placeholder occurs once. In the full-text branch the text
  from the \<^verbatim>\<open>WHERE\<close> clause on holds every placeholder once, in ascending order. The
  filter values come first in the parameter list and the limit and the offset last, in
  this order; in the semantic branch the vector literal stands right before them.
\<close>

theorem placeholders_follow_cursor:
  assumes "compile ce sp = Inr c" and "CHR ''$'' \<notin> set (sort_param sp)"
  shows "set (placeholders (sql c)) = {1..length (args c)}
    \<and> Max (set (placeholders (sql c))) = length (args c)
    \<and> (search_strategy sp \<noteq> FullText \<longrightarrow> distinct (placeholders (sql c)))
    \<and> (search_strategy sp = FullText \<longrightarrow>
         placeholders (drop (length fulltext_select) (sql c)) = [1..<Suc (length (args c))])
    \<and> (search_strategy sp = FilterOnly \<longrightarrow>
         placeholders (sql c) = [1..<Suc (length (args c))])
    \<and> (search_strategy sp = Semantic \<longrightarrow>
         placeholders (sql c) =
           (length (args c) - 2) # [1..<length (args c) - 2] @ [length (args c) - 1, length (args c)]
         \<and> (\<exists>e. ce (query sp) = Some e \<and>
                drop (length (args c) - 3) (args c) =
                  [PStr (''['' @ join '','' e @ '']''), limit sp, offset sp]))
    \<and> take (length (vals (build_filters sp))) (args c) = vals (build_filters sp)
    \<and> drop (length (args c) - 2) (args c) = [limit sp, offset sp]"
  using assms(1)
proof (cases rule: compile_cases)
  case (semantic e)
  note num = semantic_search_numbering [OF assms(2), of e, folded semantic(3)]
  have n: "length (args c) = length (vals (build_filters sp)) + 3"
    by (simp add: num(2))
  have ph: "placeholders (sql c) =
      (length (args c) - 2) # [1..<length (args c) - 2] @ [length (args c) - 1, length (args c)]"
    by (rule num(1))
  have s: "set (placeholders (sql c)) = {1..length (args c)}"
    unfolding ph n by auto
  have d: "distinct (placeholders (sql c))"
    unfolding ph n by auto
  have m: "Max (set (placeholders (sql c))) = length (args c)"
    unfolding s by (rule Max_upto) (simp add: n)
  have e: "drop (length (args c) - 3) (args c) =
      [PStr (''['' @ join '','' e @ '']''), limit sp, offset sp]"
    by (simp add: num(2))
  have t: "take (length (vals (build_filters sp))) (args c) = vals (build_filters sp)"
    by (simp add: num(2))
  have l: "drop (length (args c) - 2) (args c) = [limit sp, offset sp]"
    by (simp add: num(2))
  from s m d ph e t l semantic(1,2) show ?thesis by simp
next
  case fulltext
  note num = fulltext_search_numbering [OF assms(2), folded fulltext(2)]
  have n: "2 \<le> length (args c)"
    by (simp add: num(3))
  have s: "set (placeholders (sql c)) = {1..length (args c)}"
    unfolding num(2) using n by auto
  have m: "Max (set (placeholders (sql c))) = length (args c)"
    unfolding s by (rule Max_upto) (use n in simp)
  have t: "take (length (vals (build_filters sp))) (args c) = vals (build_filters sp)"
    by (simp add: num(3))
  have l: "drop (length (args c) - 2) (args c) = [limit sp, offset sp]"
    by (simp add: num(3))
  from s m num(1) t l fulltext(1) show ?thesis by simp
next
  case filter_only
  note num = filter_search_numbering [OF assms(2), folded filter_only(2)]
  have n: "length (args c) = length (vals (build_filters sp)) + 2"
    by (simp add: num(2))
  have s: "set (placeholders (sql c)) = {1..length (args c)}"
    unfolding num(1) by auto
  have d: "distinct (placeholders (sql c))"
    unfolding num(1) by simp
  have m: "Max (set (placeholders (sql c))) = length (args c)"
    unfolding s by (rule Max_upto) (simp add: n)
  have t: "take (length (vals (build_filters sp))) (args c) = vals (build_filters sp)"
    by (simp add: num(2))
  have l: "drop (length (args c) - 2) (args c) = [limit sp, offset sp]"
    by (simp add: num(2))
  from s m d num(1) t l filter_only(1) show ?thesis by simp
qed

theorem placeholders_follow_cursor_witness:
  "compile sample_embedding semantic_filtered =
     Inr (semantic_search [''0.1'', ''-0.25''] semantic_filtered (build_filters semantic_filtered))
   \<and> CHR ''$'' \<notin> set (sort_param semantic_filtered)
   \<and> placeholders (sql (semantic_search [''0.1'', ''-0.25''] semantic_filtered
         (build_filters semantic_filtered))) = [2, 1, 3, 4]
   \<and> args (semantic_search [''0.1'', ''-0.25''] semantic_filtered (build_filters semantic_filtered)) =
       [PStr ''GCSE'', PStr ''[0.1,-0.25]'', PNum 20, PNum 0]"
proof -
  let ?c = "semantic_search [''0.1'', ''-0.25''] semantic_filtered (build_filters semantic_filtered)"
  have h1: "compile sample_embedding semantic_filtered = Inr ?c"
    by code_simp
  have h2: "CHR ''$'' \<notin> set (sort_param semantic_filtered)"
    by code_simp
  have st: "search_strategy semantic_filtered = Semantic"
    by code_simp
  have a: "args ?c = [PStr ''GCSE'', PStr ''[0.1,-0.25]'', PNum 20, PNum 0]"
    by code_simp
  have "placeholders (sql ?c) =
      (length (args ?c) - 2) # [1..<length (args ?c) - 2] @ [length (args ?c) - 1, length (args ?c)]"
    using placeholders_follow_cursor [OF h1 h2] st by blast
  then have "placeholders (sql ?c) = [2, 1, 3, 4]"
    unfolding a by (simp add: upt_conv_Cons)
  with h1 h2 a show ?thesis by blast
qed

text \<open>
  The claim as stated fails in the full-text branch: the projection of scenario B refers
  to the first placeholder twice more, so its number is repeated in the text. It also
  fails for a sort field that brings a placeholder of its own: the text then holds a
  placeholder beyond the two parameters of the call.
\<close>

theorem placeholders_sequential_counterexample:
  "compile no_embedding scenario_B = Inr (fulltext_search scenario_B (build_filters scenario_B))
   \<and> placeholders (sql (fulltext_search scenario_B (build_filters scenario_B))) = [1, 1, 1, 2, 3, 4]
   \<and> \<not> distinct (placeholders (sql (fulltext_search scenario_B (build_filters scenario_B))))
   \<and> args (fulltext_search scenario_B (build_filters scenario_B)) =
       [PStr ''algebra'', PStr ''algebra'', PNum 20, PNum 0]
   \<and> compile no_embedding placeholder_sort =
       Inr (filter_search placeholder_sort (build_filters placeholder_sort))
   \<and> placeholders (sql (filter_search placeholder_sort (build_filters placeholder_sort))) = [9, 1, 2]
   \<and> args (filter_search placeholder_sort (build_filters placeholder_sort)) = [PNum 20, PNum 0]"
  by code_simp

text \<open>
  Claim C2. After filter building the cursor is one more than the number of values
  appended, for any number of tags and any subset of the four scalar filters. The values
  are the tags followed by the non-empty scalar filters. Every predicate has its value:
  the tag predicate holds one placeholder per tag, numbered from 1, every scalar predicate
  holds one placeholder, and the placeholders of the predicates run from 1 to the number
  of values.
\<close>

theorem cursor_follows_values:
  "paramIndex (build_filters sp) = 1 + length (vals (build_filters sp))
   \<and> vals (build_filters sp) =
       map PStr (parsedTags sp @ filter (\<lambda>v. v \<noteq> []) (map snd (scalar_filters sp)))
   \<and> map placeholders (filters (build_filters sp)) =
       (if parsedTags sp = [] then [] else [ [1..<1 + length (parsedTags sp)] ]) @
       map (\<lambda>i. [i]) [1 + length (parsedTags sp)..<paramIndex (build_filters sp)]
   \<and> placeholders (whereClause (build_filters sp)) = [1..<paramIndex (build_filters sp)]"
proof -
  let ?b = "build_filters sp"
  have idx: "paramIndex ?b = 1 + length (vals ?b)"
    by (simp add: paramIndex_build_filters)
  have vs: "vals ?b = map PStr (parsedTags sp @ filter (\<lambda>v. v \<noteq> []) (map snd (scalar_filters sp)))"
    by (rule vals_build_filters)
  have len: "paramIndex ?b
             = 1 + length (parsedTags sp) + length (filter (\<lambda>v. v \<noteq> []) (map snd (scalar_filters sp)))"
    unfolding idx vs by simp
  have eqs: "map placeholders (equality_predicates (Suc (length (parsedTags sp))) (scalar_filters sp))
             = map (\<lambda>j. [j]) [1 + length (parsedTags sp)..<paramIndex ?b]"
    unfolding len by (subst equality_predicates_placeholders) (simp_all add: scalar_filters_def)
  have frs: "map placeholders (filters ?b) =
       (if parsedTags sp = [] then [] else [ [1..<1 + length (parsedTags sp)] ]) @
       map (\<lambda>i. [i]) [1 + length (parsedTags sp)..<paramIndex ?b]"
    unfolding filters_build_filters map_append eqs
    by (simp add: tag_fragments_join_placeholders)
  have wh: "placeholders (whereClause ?b) = [1..<paramIndex ?b]"
    using whereClause_placeholders [OF numbered_build_filters, of "[]" sp] by simp
  from idx vs frs wh show ?thesis by blast
qed

theorem cursor_follows_values_witness:
  "paramIndex (build_filters scenario_D) = 4
   \<and> length (vals (build_filters scenario_D)) = 3
   \<and> map placeholders (filters (build_filters scenario_D)) = [ [1, 2], [3] ]
   \<and> placeholders (whereClause (build_filters scenario_D)) = [1, 2, 3]"
proof -
  have "parsedTags scenario_D = [''gcse'', ''revision'']"
    by code_simp
  moreover have "map snd (scalar_filters scenario_D) = [''Physics'', [], [], []]"
    by code_simp
  ultimately show ?thesis
    using cursor_follows_values [of scenario_D] by (simp add: upt_conv_Cons)
qed

text \<open>
  Claim C3. Every request selects exactly one of the three strategies, and the selection
  depends only on the semantic flag and on whether the query is empty: semantic when the
  flag is set and the query is not empty, whatever the fuzzy flag is; full-text when the
  flag is not set and the query is not empty; filter-only when the query is empty. The
  third conjunct says what the handler hands to the store under each strategy.
\<close>

theorem strategy_selection:
  "search_strategy sp =
     (if query sp = [] then FilterOnly
      else if semanticEnabled sp then Semantic
      else FullText)
   \<and> search_strategy (sp \<lparr> fuzzy := f \<rparr>) = search_strategy sp
   \<and> compile ce sp =
       (case search_strategy sp of
          Semantic \<Rightarrow>
            (case ce (query sp) of
               None \<Rightarrow> Inl EmbeddingError
             | Some e \<Rightarrow> Inr (semantic_search e sp (build_filters sp)))
        | FullText \<Rightarrow> Inr (fulltext_search sp (build_filters sp))
        | FilterOnly \<Rightarrow> Inr (filter_search sp (build_filters sp)))"
  by (simp add: search_strategy_def semanticEnabled_def compile_def)

theorem strategy_selection_witness:
  "search_strategy (destructure [''query'' \<mapsto> ''algebra'', ''semantic'' \<mapsto> ''true'']) = Semantic
   \<and> search_strategy
        ((destructure [''query'' \<mapsto> ''algebra'', ''semantic'' \<mapsto> ''true'']) \<lparr> fuzzy := ''false'' \<rparr>)
       = Semantic
   \<and> search_strategy (destructure [''query'' \<mapsto> ''algebra'']) = FullText
   \<and> search_strategy (destructure [''semantic'' \<mapsto> ''true'']) = FilterOnly"
  using strategy_selection [of "destructure [''query'' \<mapsto> ''algebra'', ''semantic'' \<mapsto> ''true'']" "''false''"]
    strategy_selection [of "destructure [''query'' \<mapsto> ''algebra'']"]
    strategy_selection [of "destructure [''semantic'' \<mapsto> ''true'']"]
  by (simp add: destructure_def dflt_def dflt_num_def semanticEnabled_def)

text \<open>
  Claim C4, as amended. The handler checks the sort field against no list and has no
  error for a request it does not accept. A non-empty sort field, whatever it is, is
  written between double quotes into the \<^verbatim>\<open>ORDER BY\<close> clause of the compiled text, followed
  by the direction; the handler fails before the store is called only when the
  embedding request of the semantic strategy is rejected, which does not depend on the
  sort parameter.
\<close>

theorem sort_field_interpolated:
  assumes "sortField (sort_param sp) = Some f" and "f \<noteq> []"
  shows \<open>orderBy (sort_param sp) = ''"'' @ f @ ''" '' @ validSortDir (sort_param sp)
    \<and> (\<forall>c. compile ce sp = Inr c \<longrightarrow>
          sublist (''"'' @ f @ ''" '' @ validSortDir (sort_param sp)) (sql c))
    \<and> ((\<exists>c. compile ce sp = Inr c) \<longleftrightarrow>
         \<not> (search_strategy sp = Semantic \<and> ce (query sp) = None))
    \<and> isl (compile ce (sp \<lparr> sort_param := s \<rparr>)) = isl (compile ce sp)\<close>
proof -
  have o: \<open>orderBy (sort_param sp) = ''"'' @ f @ ''" '' @ validSortDir (sort_param sp)\<close>
    using assms by (simp add: orderBy_def)
  have \<open>sublist (''"'' @ f @ ''" '' @ validSortDir (sort_param sp)) (sql c)\<close>
    if "compile ce sp = Inr c" for c
    using orderBy_in_compiled [OF that] unfolding o .
  moreover have "isl (compile ce (sp \<lparr> sort_param := s \<rparr>)) = isl (compile ce sp)"
    by (simp add: isl_compile)
  ultimately show ?thesis
    using o compile_succeeds_iff [of ce sp] by blast
qed

theorem sort_field_interpolated_witness:
  \<open>sortField (sort_param hostile_sort) = Some ''id" ; DROP TABLE resources; --''
   \<and> ''id" ; DROP TABLE resources; --'' \<noteq> []
   \<and> compile no_embedding hostile_sort = Inr (filter_search hostile_sort (build_filters hostile_sort))
   \<and> sublist ''"id" ; DROP TABLE resources; --" desc''
        (sql (filter_search hostile_sort (build_filters hostile_sort)))\<close>
proof -
  have h1: \<open>sortField (sort_param hostile_sort) = Some ''id" ; DROP TABLE resources; --''\<close>
    by code_simp
  have h2: \<open>''id" ; DROP TABLE resources; --'' \<noteq> []\<close>
    by simp
  have c: "compile no_embedding hostile_sort = Inr (filter_search hostile_sort (build_filters hostile_sort))"
    by code_simp
  have d: "validSortDir (sort_param hostile_sort) = ''desc''"
    by code_simp
  have \<open>sublist (''"'' @ ''id" ; DROP TABLE resources; --'' @ ''" '' @ validSortDir (sort_param hostile_sort))
        (sql (filter_search hostile_sort (build_filters hostile_sort)))\<close>
    using sort_field_interpolated [OF h1 h2, of no_embedding] c by blast
  then have \<open>sublist ''"id" ; DROP TABLE resources; --" desc''
        (sql (filter_search hostile_sort (build_filters hostile_sort)))\<close>
    unfolding d by simp
  with h1 h2 c show ?thesis by blast
qed

text \<open>
  The claim as stated fails: a sort field outside of the list of sortable attributes is
  compiled, and it stands in the text as it came.
\<close>

theorem sort_allow_list_counterexample:
  \<open>sortField (sort_param hostile_sort) = Some ''id" ; DROP TABLE resources; --''
   \<and> ''id" ; DROP TABLE resources; --'' \<notin> set sortable_attributes
   \<and> compile no_embedding hostile_sort = Inr (filter_search hostile_sort (build_filters hostile_sort))
   \<and> sql (filter_search hostile_sort (build_filters hostile_sort)) =
       ''\<newline>'' @
       ''        SELECT id, title, description, "averagerating", subject, "examboard", level, type\<newline>'' @
       ''        FROM "resources"\<newline>'' @
       ''        \<newline>'' @
       ''        ORDER BY "id" ; DROP TABLE resources; --" desc\<newline>'' @
       ''        LIMIT $1 OFFSET $2;\<newline>'' @
       ''      ''\<close>
  by code_simp



text \<open>
  Claim C6, as amended. A full-text request with the fuzzy flag off still projects the
  column \<^verbatim>\<open>fuzzy_score\<close> and orders by the rank, then by this column, then by the sort of
  the request. The column is \<^verbatim>\<open>similarity("title", $1)\<close>, the same expression with the
  same parameter as with the fuzzy flag on; it is not the constant 0.
\<close>

theorem fuzzy_score_projected_without_fuzzy:
  assumes "search_strategy sp = FullText" and "\<not> fuzzyEnabled sp"
  shows \<open>\<exists>c. compile ce sp = Inr c
    \<and> sql c =
        fulltext_select @
        (if whereClause (build_filters sp) \<noteq> [] then whereClause (build_filters sp) @ '' AND ''
         else ''WHERE '') @
        '' '' @
        ''"search_tsv" @@ plainto_tsquery('english', $'' @
            show_nat (length (vals (build_filters sp)) + 1) @ '')'' @
        ''\<newline>'' @
        ''        ORDER BY rank DESC, fuzzy_score DESC, '' @ orderBy (sort_param sp) @ ''\<newline>'' @
        ''        LIMIT $'' @ show_nat (length (vals (build_filters sp)) + 2) @
        '' OFFSET $'' @ show_nat (length (vals (build_filters sp)) + 3) @ '';\<newline>'' @
        ''      ''
    \<and> sublist ''similarity("title", $1) AS fuzzy_score'' (sql c)
    \<and> fuzzy_score similarity c title =
        Some (similarity title
          (PStr (hd (parsedTags sp @ filter (\<lambda>v. v \<noteq> []) (map snd (scalar_filters sp)) @
                     [query sp]))))
    \<and> fuzzy_score similarity c title =
        fuzzy_score similarity
          (fulltext_search (sp \<lparr> fuzzy := ''true'' \<rparr>) (build_filters (sp \<lparr> fuzzy := ''true'' \<rparr>)))
          title\<close>
proof -
  let ?b = "build_filters sp"
  let ?c = "fulltext_search sp ?b"
  have c: "compile ce sp = Inr ?c"
    using assms(1) by (simp add: compile_def)
  have fz: "fuzzy sp \<noteq> ''true''"
    using assms(2) by (simp add: fuzzyEnabled_def)
  have t: \<open>sql ?c =
        fulltext_select @
        (if whereClause ?b \<noteq> [] then whereClause ?b @ '' AND '' else ''WHERE '') @
        '' '' @
        ''"search_tsv" @@ plainto_tsquery('english', $'' @ show_nat (length (vals ?b) + 1) @ '')'' @
        ''\<newline>'' @
        ''        ORDER BY rank DESC, fuzzy_score DESC, '' @ orderBy (sort_param sp) @ ''\<newline>'' @
        ''        LIMIT $'' @ show_nat (length (vals ?b) + 2) @
        '' OFFSET $'' @ show_nat (length (vals ?b) + 3) @ '';\<newline>'' @
        ''      ''\<close>
    by (simp add: fulltext_search_sql searchCondition_def push_query_def Let_def fz
        paramIndex_build_filters eval_nat_numeral)
  have s: \<open>sublist ''similarity("title", $1) AS fuzzy_score'' (sql ?c)\<close>
    by (rule sublist_fulltext_select) (rule fulltext_select_columns)
  have f1: "fuzzy_score similarity ?c title =
        Some (similarity title
          (PStr (hd (parsedTags sp @ filter (\<lambda>v. v \<noteq> []) (map snd (scalar_filters sp)) @
                     [query sp]))))"
    by (rule fuzzy_score_fulltext)
  have f2: "fuzzy_score similarity ?c title =
        fuzzy_score similarity
          (fulltext_search (sp \<lparr> fuzzy := ''true'' \<rparr>) (build_filters (sp \<lparr> fuzzy := ''true'' \<rparr>)))
          title"
    unfolding fuzzy_score_fulltext by (simp add: parsedTags_def scalar_filters_def)
  show ?thesis
    by (intro exI [of _ ?c] conjI c t s f1 f2)
qed

theorem fuzzy_score_projected_without_fuzzy_witness:
  \<open>search_strategy fulltext_plain = FullText \<and> \<not> fuzzyEnabled fulltext_plain
   \<and> (\<exists>c. compile no_embedding fulltext_plain = Inr c
          \<and> sublist ''similarity("title", $1) AS fuzzy_score'' (sql c)
          \<and> fuzzy_score exact_similarity c ''algebra'' = Some 1)\<close>
proof -
  have h1: "search_strategy fulltext_plain = FullText" by code_simp
  have h2: "\<not> fuzzyEnabled fulltext_plain" by code_simp
  have t: "parsedTags fulltext_plain = []" by code_simp
  have f: "filter (\<lambda>v. v \<noteq> []) (map snd (scalar_filters fulltext_plain)) = []" by code_simp
  have q: "query fulltext_plain = ''algebra''" by code_simp
  obtain c where c: "compile no_embedding fulltext_plain = Inr c"
      \<open>sublist ''similarity("title", $1) AS fuzzy_score'' (sql c)\<close>
      "fuzzy_score exact_similarity c ''algebra'' =
        Some (exact_similarity ''algebra'' (PStr (hd (parsedTags fulltext_plain @
          filter (\<lambda>v. v \<noteq> []) (map snd (scalar_filters fulltext_plain)) @ [query fulltext_plain]))))"
    using fuzzy_score_projected_without_fuzzy [OF h1 h2, of no_embedding exact_similarity "''algebra''"]
    by blast
  have "fuzzy_score exact_similarity c ''algebra'' = Some 1"
    unfolding c(3) t f q by (simp add: exact_similarity_def)
  with h1 h2 c(1,2) show ?thesis by blast
qed

text \<open>
  The claim as stated fails: with the fuzzy flag off the score of a row whose title is the
  query text is the similarity of the title with itself, which is 1 and not 0.
\<close>

theorem fuzzy_score_zero_counterexample:
  \<open>search_strategy fulltext_plain = FullText \<and> \<not> fuzzyEnabled fulltext_plain
   \<and> compile no_embedding fulltext_plain =
       Inr (fulltext_search fulltext_plain (build_filters fulltext_plain))
   \<and> sublist ''similarity("title", $1) AS fuzzy_score''
        (sql (fulltext_search fulltext_plain (build_filters fulltext_plain)))
   \<and> bound (fulltext_search fulltext_plain (build_filters fulltext_plain)) 1 = Some (PStr ''algebra'')
   \<and> fuzzy_score exact_similarity (fulltext_search fulltext_plain (build_filters fulltext_plain))
        ''algebra'' = Some 1\<close>
proof -
  let ?c = "fulltext_search fulltext_plain (build_filters fulltext_plain)"
  have "search_strategy fulltext_plain = FullText" "\<not> fuzzyEnabled fulltext_plain"
    "compile no_embedding fulltext_plain = Inr ?c"
    \<open>sublist ''similarity("title", $1) AS fuzzy_score'' (sql ?c)\<close>
    by code_simp+
  moreover have b: "bound ?c 1 = Some (PStr ''algebra'')"
    by code_simp
  moreover have "fuzzy_score exact_similarity ?c ''algebra'' = Some 1"
    unfolding fuzzy_score_def b by (simp add: exact_similarity_def)
  ultimately show ?thesis by blast
qed

text \<open>
  Claim C7, as amended. The sort parameter is split at every colon: the field is the text
  before the first colon, and the direction is the text between the first and the second
  colon, or up to the end when there is no second colon, and is missing when there is
  no colon. A direction other than \<^verbatim>\<open>asc\<close> and \<^verbatim>\<open>desc\<close> becomes \<^verbatim>\<open>desc\<close>, and an empty
  field gives the fixed \<^verbatim>\<open>"averagerating" DESC\<close>. For a parameter with at most one colon
  this is the reading of the specification, which splits at the first colon only.
\<close>

theorem sort_parsing:
  \<open>sortField s = Some (takeWhile (\<lambda>c. c \<noteq> CHR '':'') s)
   \<and> sortDir s =
       (case dropWhile (\<lambda>c. c \<noteq> CHR '':'') s of
          [] \<Rightarrow> None
        | _ # r \<Rightarrow> Some (takeWhile (\<lambda>c. c \<noteq> CHR '':'') r))
   \<and> validSortDir s = (if sortDir s = Some ''asc'' then ''asc'' else ''desc'')
   \<and> orderBy s =
       (if takeWhile (\<lambda>c. c \<noteq> CHR '':'') s = [] then ''"averagerating" DESC''
        else ''"'' @ takeWhile (\<lambda>c. c \<noteq> CHR '':'') s @ ''" '' @ validSortDir s)
   \<and> (count_list s CHR '':'' \<le> 1 \<longrightarrow> orderBy s = orderBy_spec s)\<close>
  using sortField_eq [of s] sortDir_eq [of s] validSortDir_eq [of s] orderBy_eq [of s]
    orderBy_spec_agrees [of s]
  by blast

theorem sort_parsing_witness:
  \<open>count_list ''title:asc'' CHR '':'' \<le> 1
   \<and> orderBy ''title:asc'' = ''"title" asc''
   \<and> orderBy_spec ''title:asc'' = ''"title" asc''
   \<and> sortField ''title:asc:x'' = Some ''title''
   \<and> sortDir ''title:asc:x'' = Some ''asc''\<close>
proof -
  have h: "count_list ''title:asc'' CHR '':'' \<le> 1"
    by code_simp
  have o: \<open>orderBy ''title:asc'' = ''"title" asc''\<close>
    by code_simp
  have "orderBy ''title:asc'' = orderBy_spec ''title:asc''"
    using sort_parsing [of "''title:asc''"] h by blast
  with o have s: \<open>orderBy_spec ''title:asc'' = ''"title" asc''\<close>
    by simp
  have "sortField ''title:asc:x'' = Some ''title''" "sortDir ''title:asc:x'' = Some ''asc''"
    using sort_parsing [of "''title:asc:x''"] by simp_all
  with h o s show ?thesis by blast
qed

text \<open>
  The claim as stated fails for a parameter with two colons: split at the first colon, the
  direction of \<^verbatim>\<open>title:asc:x\<close> is \<^verbatim>\<open>asc:x\<close> and falls back to \<^verbatim>\<open>desc\<close>, while the
  handler sorts ascending.
\<close>

theorem split_on_first_colon_counterexample:
  \<open>orderBy ''title:asc:x'' = ''"title" asc''
   \<and> orderBy_spec ''title:asc:x'' = ''"title" desc''
   \<and> split_first CHR '':'' ''title:asc:x'' = (''title'', Some ''asc:x'')\<close>
  by code_simp

text \<open>
  Claim C8. The tag predicates come first, one containment predicate per tag in the order
  of the input, then the equality predicates of the non-empty scalar filters; all of them
  are joined by \<^verbatim>\<open>AND\<close>, and the values are bound in the same order. For the request of
  scenario D these are three predicates with the values gcse, revision and Physics.
\<close>

theorem tags_before_scalars:
  \<open>filters (build_filters sp) =
     (if parsedTags sp = [] then []
      else [join '' AND ''
              (map (\<lambda>i. ''"tags" @> ARRAY[$'' @ show_nat i @ '']'')
                 [1..<1 + length (parsedTags sp)])]) @
     equality_predicates (1 + length (parsedTags sp)) (scalar_filters sp)
   \<and> whereClause (build_filters sp) =
       (if filters (build_filters sp) = [] then []
        else ''WHERE '' @
             join '' AND ''
               (map (\<lambda>i. ''"tags" @> ARRAY[$'' @ show_nat i @ '']'')
                  [1..<1 + length (parsedTags sp)] @
                equality_predicates (1 + length (parsedTags sp)) (scalar_filters sp)))
   \<and> vals (build_filters sp) =
       map PStr (parsedTags sp) @
       map PStr (filter (\<lambda>v. v \<noteq> []) (map snd (scalar_filters sp)))
   \<and> whereClause (build_filters scenario_D) =
       ''WHERE "tags" @> ARRAY[$1] AND "tags" @> ARRAY[$2] AND "subject" = $3''
   \<and> vals (build_filters scenario_D) = [PStr ''gcse'', PStr ''revision'', PStr ''Physics'']\<close>
proof -
  let ?b = "build_filters sp"
  let ?tags = \<open>map (\<lambda>i. ''"tags" @> ARRAY[$'' @ show_nat i @ '']'') [1..<1 + length (parsedTags sp)]\<close>
  let ?eqs = "equality_predicates (1 + length (parsedTags sp)) (scalar_filters sp)"
  have fs: "filters ?b = (if parsedTags sp = [] then [] else [join '' AND '' ?tags]) @ ?eqs"
    by (simp add: filters_build_filters tag_fragments_map)
  have "join '' AND '' (filters ?b) = join '' AND '' (?tags @ ?eqs)"
  proof (cases "parsedTags sp = []")
    case True
    then show ?thesis by (simp add: fs)
  next
    case False
    then have "?tags \<noteq> []" by (simp add: Suc_le_eq)
    then have "join '' AND '' (join '' AND '' ?tags # ?eqs) = join '' AND '' (?tags @ ?eqs)"
      by (rule join_join)
    with False show ?thesis by (simp add: fs)
  qed
  then have wc: "whereClause ?b =
       (if filters ?b = [] then [] else ''WHERE '' @ join '' AND '' (?tags @ ?eqs))"
    by (simp add: whereClause_def)
  have vs: "vals ?b = map PStr (parsedTags sp) @
       map PStr (filter (\<lambda>v. v \<noteq> []) (map snd (scalar_filters sp)))"
    by (simp add: vals_build_filters)
  have d1: \<open>whereClause (build_filters scenario_D) =
       ''WHERE "tags" @> ARRAY[$1] AND "tags" @> ARRAY[$2] AND "subject" = $3''\<close>
    by (simp add: scenario_D_filters whereClause_def)
  have d2: "vals (build_filters scenario_D) = [PStr ''gcse'', PStr ''revision'', PStr ''Physics'']"
    by (simp add: scenario_D_filters)
  from fs wc vs d1 d2 show ?thesis by blast
qed

theorem tags_before_scalars_witness:
  \<open>filters (build_filters scenario_D) =
     [''"tags" @> ARRAY[$1] AND "tags" @> ARRAY[$2]'', ''"subject" = $3'']
   \<and> parsedTags scenario_D = [''gcse'', ''revision'']
   \<and> scalar_filters scenario_D =
       [(''subject'', ''Physics''), (''examboard'', []), (''level'', []), (''type'', [])]\<close>
proof -
  have tags: "parsedTags scenario_D = [''gcse'', ''revision'']"
    by code_simp
  have scalars: "scalar_filters scenario_D =
       [(''subject'', ''Physics''), (''examboard'', []), (''level'', []), (''type'', [])]"
    by code_simp
  have "show_nat (Suc 0) = ''1''" "show_nat (Suc (Suc 0)) = ''2''"
    "show_nat (Suc (Suc (Suc 0))) = ''3''"
    by code_simp+
  then show ?thesis
    using tags_before_scalars [of scenario_D] by (simp add: tags scalars upt_conv_Cons)
qed

text \<open>
  Claim C9. The text and the parameter list depend on the destructured request and, in
  the semantic branch, on the embedding of the query, and on nothing else: two runs of
  the handler on the same request agree, whatever the embedding service answers to
  other queries, once it gives the same vector for this query.
\<close>

theorem compile_deterministic:
  assumes "search_strategy sp = Semantic \<longrightarrow> ce1 (query sp) = ce2 (query sp)"
  shows "compile ce1 sp = compile ce2 sp"
  using assms by (cases "search_strategy sp") (simp_all add: compile_def)

theorem compile_deterministic_witness:
  "sample_embedding (query scenario_C) = picky_embedding (query scenario_C)
   \<and> sample_embedding [] \<noteq> picky_embedding []
   \<and> compile sample_embedding scenario_C = compile picky_embedding scenario_C
   \<and> compile sample_embedding scenario_A = compile no_embedding scenario_A"
proof -
  have h: "sample_embedding (query scenario_C) = picky_embedding (query scenario_C)"
    by code_simp
  have d: "sample_embedding [] \<noteq> picky_embedding []"
    by code_simp
  have a: "search_strategy scenario_A \<noteq> Semantic"
    by code_simp
  show ?thesis
    using compile_deterministic [of scenario_C sample_embedding picky_embedding]
      compile_deterministic [of scenario_A sample_embedding no_embedding] h d a
    by simp
qed




end
